theory Spec2Isabelle
  imports Main "HOL-Library.AList" "HOL-Library.Sublist"
begin

section \<open>The memoizing wrapper (\<open>memoize\<close>, lines 244-262)\<close>

text \<open>
  Python values that reach the wrapper as arguments. A string, a tuple, a list and a
  dictionary carry the identity of their object (a number): the same number in two places
  is the same object in two places. A dictionary keeps its items in insertion order, as
  Python's \<open>dict\<close> does. \<open>PyLambda\<close> is a lambda, which \<open>pickle\<close> refuses
  with \<open>PicklingError\<close>. Integers and \<open>None\<close> need no identity: \<open>pickle\<close>
  never looks at it. Containers that contain themselves are not represented.
\<close>

datatype pyval =
    PyNone
  | PyInt int
  | PyStr nat string
  | PyTuple nat "pyval list"
  | PyList nat "pyval list"
  | PyDict nat "(pyval \<times> pyval) list"
  | PyLambda nat

text \<open>
  The opcodes of the pickle protocol 4 that these values need. The stream of
  \<open>pickle.dumps\<close> is modelled up to what does not bear on two streams being equal:
  the protocol header, the frame and the final \<open>STOP\<close> are left out, the opcodes for
  integers of different sizes are one opcode, so are those for strings and those for memo
  references, and the items of a list or dictionary are emitted as one batch (the pickler
  starts a new batch every 1000 items).
\<close>

datatype opcode =
    NONE
  | BININT int
  | BINUNICODE string
  | MEMOIZE
  | BINGET nat
  | MARK
  | POP
  | POP_MARK
  | EMPTY_TUPLE
  | TUPLE1
  | TUPLE2
  | TUPLE3
  | TUPLE
  | EMPTY_LIST
  | APPEND
  | APPENDS
  | EMPTY_DICT
  | SETITEM
  | SETITEMS

datatype exn = PicklingError | Raised string

text \<open>
  The memo of the pickler: the objects memoized so far, in order; the position of an
  object is its memo index. \<open>None\<close> stands for the object \<open>pickle.dumps\<close> was
  called on.
\<close>

type_synonym memo = "nat option list"

fun index_of :: "'a \<Rightarrow> 'a list \<Rightarrow> nat option" where
  "index_of x [] = None"
| "index_of x (y # ys) = (if x = y then Some 0 else map_option Suc (index_of x ys))"

text \<open>
  \<open>save_tuple\<close> after the elements: a tuple that got into the memo while its elements
  were saved is popped and fetched from the memo; otherwise the tuple is built and
  memoized. Up to three elements have opcodes of their own.
\<close>

definition close_tuple :: "nat \<Rightarrow> opcode list \<Rightarrow> nat option \<Rightarrow> opcode list" where
  "close_tuple n ops back =
     (case back of
        Some j \<Rightarrow> if n \<le> 3 then ops @ replicate n POP @ [BINGET j]
                  else MARK # ops @ [POP_MARK, BINGET j]
      | None \<Rightarrow>
          if n = 1 then ops @ [TUPLE1, MEMOIZE]
          else if n = 2 then ops @ [TUPLE2, MEMOIZE]
          else if n = 3 then ops @ [TUPLE3, MEMOIZE]
          else MARK # ops @ [TUPLE, MEMOIZE])"

text \<open>The items of a list (\<open>APPEND\<close>, \<open>APPENDS\<close>) or of a dictionary.\<close>

definition batch :: "nat \<Rightarrow> opcode list \<Rightarrow> opcode \<Rightarrow> opcode \<Rightarrow> opcode list" where
  "batch n ops one many =
     (if n = 0 then [] else if n = 1 then ops @ [one] else MARK # ops @ [many])"

text \<open>
  \<open>Pickler.save\<close>: the memo is looked up first; a string is memoized after it is
  written, a tuple after its elements, a list and a dictionary before theirs. A lambda is
  never in the memo, since pickling it fails.
\<close>

function (sequential) save :: "pyval \<Rightarrow> memo \<Rightarrow> exn + opcode list \<times> memo"
  and save_all :: "pyval list \<Rightarrow> memo \<Rightarrow> exn + opcode list \<times> memo"
  and save_items :: "(pyval \<times> pyval) list \<Rightarrow> memo \<Rightarrow> exn + opcode list \<times> memo" where
  "save PyNone m = Inr ([NONE], m)"
| "save (PyInt i) m = Inr ([BININT i], m)"
| "save (PyStr a s) m =
     (case index_of (Some a) m of
        Some j \<Rightarrow> Inr ([BINGET j], m)
      | None \<Rightarrow> Inr ([BINUNICODE s, MEMOIZE], m @ [Some a]))"
| "save (PyLambda a) m = Inl PicklingError"
| "save (PyTuple a vs) m =
     (case index_of (Some a) m of
        Some j \<Rightarrow> Inr ([BINGET j], m)
      | None \<Rightarrow>
          if vs = [] then Inr ([EMPTY_TUPLE], m)
          else (case save_all vs m of
                  Inl e \<Rightarrow> Inl e
                | Inr (ops, m') \<Rightarrow>
                    (case index_of (Some a) m' of
                       Some j \<Rightarrow> Inr (close_tuple (length vs) ops (Some j), m')
                     | None \<Rightarrow> Inr (close_tuple (length vs) ops None, m' @ [Some a]))))"
| "save (PyList a vs) m =
     (case index_of (Some a) m of
        Some j \<Rightarrow> Inr ([BINGET j], m)
      | None \<Rightarrow>
          (case save_all vs (m @ [Some a]) of
             Inl e \<Rightarrow> Inl e
           | Inr (ops, m') \<Rightarrow>
               Inr (EMPTY_LIST # MEMOIZE # batch (length vs) ops APPEND APPENDS, m')))"
| "save (PyDict a kvs) m =
     (case index_of (Some a) m of
        Some j \<Rightarrow> Inr ([BINGET j], m)
      | None \<Rightarrow>
          (case save_items kvs (m @ [Some a]) of
             Inl e \<Rightarrow> Inl e
           | Inr (ops, m') \<Rightarrow>
               Inr (EMPTY_DICT # MEMOIZE # batch (length kvs) ops SETITEM SETITEMS, m')))"
| "save_all [] m = Inr ([], m)"
| "save_all (v # vs) m =
     (case save v m of
        Inl e \<Rightarrow> Inl e
      | Inr (ops, m') \<Rightarrow>
          (case save_all vs m' of
             Inl e \<Rightarrow> Inl e
           | Inr (ops', m'') \<Rightarrow> Inr (ops @ ops', m'')))"
| "save_items [] m = Inr ([], m)"
| "save_items ((k, v) # kvs) m =
     (case save k m of
        Inl e \<Rightarrow> Inl e
      | Inr (ops, m') \<Rightarrow>
          (case save v m' of
             Inl e \<Rightarrow> Inl e
           | Inr (ops', m'') \<Rightarrow>
               (case save_items kvs m'' of
                  Inl e \<Rightarrow> Inl e
                | Inr (ops'', m''') \<Rightarrow> Inr (ops @ ops' @ ops'', m'''))))"
  by pat_completeness auto
termination
  by (relation "measure (\<lambda>x. case x of
        Inl (v, m) \<Rightarrow> 2 * size v
      | Inr (Inl (vs, m)) \<Rightarrow> 2 * size_list size vs + 1
      | Inr (Inr (kvs, m)) \<Rightarrow> 2 * size_list (size_prod size size) kvs + 1)") auto

text \<open>
  A call \<open>wrapper(*args, **kwargs)\<close>: \<open>args\<close> is the tuple of the positional
  arguments, \<open>kwargs\<close> the dictionary of the keyword arguments in the order the call
  wrote them, each name a string object of its own identity. Both containers are made for
  the call, so neither is among the arguments.
\<close>

type_synonym kwargs = "((nat \<times> string) \<times> pyval) list"
type_synonym key = "opcode list \<times> opcode list"
type_synonym cache = "key \<rightharpoonup> pyval"

definition kwargs_items :: "kwargs \<Rightarrow> (pyval \<times> pyval) list" where
  "kwargs_items kw = map (\<lambda>((a, k), v). (PyStr a k, v)) kw"

text \<open>\<open>pickle.dumps(args)\<close> and \<open>pickle.dumps(kwargs)\<close>, each with a memo of its own.\<close>

definition dumps_args :: "pyval list \<Rightarrow> exn + opcode list" where
  "dumps_args args =
     (if args = [] then Inr [EMPTY_TUPLE]
      else (case save_all args [] of
              Inl e \<Rightarrow> Inl e
            | Inr (ops, m) \<Rightarrow> Inr (close_tuple (length args) ops None)))"

definition dumps_kwargs :: "kwargs \<Rightarrow> exn + opcode list" where
  "dumps_kwargs kw =
     (case save_items (kwargs_items kw) [None] of
        Inl e \<Rightarrow> Inl e
      | Inr (ops, m) \<Rightarrow> Inr (EMPTY_DICT # MEMOIZE # batch (length kw) ops SETITEM SETITEMS))"

text \<open>Line 253: \<open>key = (pickle.dumps(args), pickle.dumps(kwargs))\<close>.\<close>

definition make_key :: "pyval list \<Rightarrow> kwargs \<Rightarrow> exn + key" where
  "make_key args kw =
     (case dumps_args args of
        Inl e \<Rightarrow> Inl e
      | Inr a \<Rightarrow>
          (case dumps_kwargs kw of
             Inl e \<Rightarrow> Inl e
           | Inr k \<Rightarrow> Inr (a, k)))"

text \<open>
  The wrapped callable: it may read and change a state of its own (a call counter, for
  one) and either returns a value or raises. It is assumed not to call the wrapper
  itself.
\<close>

type_synonym 's func = "pyval list \<Rightarrow> kwargs \<Rightarrow> 's \<Rightarrow> (exn + pyval) \<times> 's"

text \<open>
  Lines 252-260. The state is the closure's \<open>cache\<close> and the state of \<open>func\<close>.
\<close>

definition wrapper ::
  "'s func \<Rightarrow> pyval list \<Rightarrow> kwargs \<Rightarrow> cache \<times> 's \<Rightarrow> (exn + pyval) \<times> (cache \<times> 's)" where
  "wrapper func args kw st =
     (case make_key args kw of
        Inl e \<Rightarrow> (Inl e, st)
      | Inr key \<Rightarrow>
          (case fst st key of
             Some v \<Rightarrow> (Inr v, st)
           | None \<Rightarrow>
               (case func args kw (snd st) of
                  (Inl e, s') \<Rightarrow> (Inl e, (fst st, s'))
                | (Inr value, s') \<Rightarrow> (Inr value, ((fst st)(key \<mapsto> value), s')))))"

text \<open>
  A callable with an internal call counter: every invocation of \<open>f\<close> adds one.
\<close>

definition counted :: "'s func \<Rightarrow> (nat \<times> 's) func" where
  "counted f args kw cs =
     (case f args kw (snd cs) of (r, s') \<Rightarrow> (r, (Suc (fst cs), s')))"


text \<open>
  A callable for the examples: it returns its first positional argument (\<open>None\<close>
  when there is none) and has no state of its own.
\<close>

definition first_arg :: "unit func" where
  "first_arg args kw s = (Inr (case args of [] \<Rightarrow> PyNone | a # as \<Rightarrow> a), s)"

subsection \<open>Values without identity\<close>

text \<open>
  The value of an argument with the identities of its objects forgotten, and the
  identities themselves in the order the pickler meets them. Arguments that share no
  object (\<open>unshared\<close>) are pickled like their values, by \<open>encode\<close>; \<open>rencode\<close>
  is that stream backwards.
\<close>

datatype val =
    VNone
  | VInt int
  | VStr string
  | VTuple "val list"
  | VList "val list"
  | VDict "(val \<times> val) list"
  | VLambda

fun erase :: "pyval \<Rightarrow> val" where
  "erase PyNone = VNone"
| "erase (PyInt i) = VInt i"
| "erase (PyStr a s) = VStr s"
| "erase (PyTuple a vs) = VTuple (map erase vs)"
| "erase (PyList a vs) = VList (map erase vs)"
| "erase (PyDict a kvs) = VDict (map (\<lambda>(k, v). (erase k, erase v)) kvs)"
| "erase (PyLambda a) = VLambda"

fun ids_of :: "pyval \<Rightarrow> nat list" where
  "ids_of PyNone = []"
| "ids_of (PyInt i) = []"
| "ids_of (PyStr a s) = [a]"
| "ids_of (PyTuple a vs) = a # concat (map ids_of vs)"
| "ids_of (PyList a vs) = a # concat (map ids_of vs)"
| "ids_of (PyDict a kvs) = a # concat (map (\<lambda>(k, v). ids_of k @ ids_of v) kvs)"
| "ids_of (PyLambda a) = [a]"

definition unshared :: "pyval list \<Rightarrow> bool" where
  "unshared vs = distinct (concat (map ids_of vs))"

definition unshared_kw :: "kwargs \<Rightarrow> bool" where
  "unshared_kw kw = distinct (concat (map (\<lambda>((a, k), v). a # ids_of v) kw))"

text \<open>
  A call none of whose arguments share an object, and the argument set of a call: the
  values of the positional arguments in order, and the names and values of the keyword
  arguments in the order of the call.
\<close>

definition plain_call :: "pyval list \<times> kwargs \<Rightarrow> bool" where
  "plain_call c = (unshared (fst c) \<and> unshared_kw (snd c))"

definition args_val :: "pyval list \<Rightarrow> val" where
  "args_val args = VTuple (map erase args)"

definition kwargs_val :: "kwargs \<Rightarrow> val" where
  "kwargs_val kw = VDict (map (\<lambda>((a, k), v). (VStr k, erase v)) kw)"


fun lambda_free :: "val \<Rightarrow> bool" where
  "lambda_free VNone = True"
| "lambda_free (VInt i) = True"
| "lambda_free (VStr s) = True"
| "lambda_free (VTuple vs) = list_all lambda_free vs"
| "lambda_free (VList vs) = list_all lambda_free vs"
| "lambda_free (VDict kvs) = list_all (\<lambda>(k, v). lambda_free k \<and> lambda_free v) kvs"
| "lambda_free VLambda = False"

definition tuple_op :: "nat \<Rightarrow> opcode" where
  "tuple_op n = (if n = 1 then TUPLE1 else if n = 2 then TUPLE2 else if n = 3 then TUPLE3 else TUPLE)"

definition items_op :: "nat \<Rightarrow> opcode \<Rightarrow> opcode \<Rightarrow> opcode" where
  "items_op n one many = (if n = 1 then one else many)"

definition mark_if :: "bool \<Rightarrow> opcode list" where
  "mark_if b = (if b then [MARK] else [])"

fun rencode :: "val \<Rightarrow> opcode list" where
  "rencode VNone = [NONE]"
| "rencode (VInt i) = [BININT i]"
| "rencode (VStr s) = [MEMOIZE, BINUNICODE s]"
| "rencode (VTuple vs) =
     (if vs = [] then [EMPTY_TUPLE]
      else MEMOIZE # tuple_op (length vs) # concat (map rencode (rev vs))
             @ mark_if (3 < length vs))"
| "rencode (VList vs) =
     (if vs = [] then [MEMOIZE, EMPTY_LIST]
      else items_op (length vs) APPEND APPENDS # concat (map rencode (rev vs))
             @ mark_if (1 < length vs) @ [MEMOIZE, EMPTY_LIST])"
| "rencode (VDict kvs) =
     (if kvs = [] then [MEMOIZE, EMPTY_DICT]
      else items_op (length kvs) SETITEM SETITEMS
             # concat (map (\<lambda>(k, v). rencode v @ rencode k) (rev kvs))
             @ mark_if (1 < length kvs) @ [MEMOIZE, EMPTY_DICT])"
| "rencode VLambda = []"

definition encode :: "val \<Rightarrow> opcode list" where
  "encode v = rev (rencode v)"

subsection \<open>Notions for the proofs about pickling\<close>

text \<open>
  \<open>fresh ids m\<close>: the identities \<open>ids\<close> are pairwise different and none is in
  the memo \<open>m\<close>. \<open>saved res ok ops m ids\<close>: the result \<open>res\<close> of saving is
  the stream \<open>ops\<close> with a memo that has grown by identities of \<open>ids\<close> only, when
  \<open>ok\<close>, and \<open>PicklingError\<close> otherwise.
\<close>

definition fresh :: "nat list \<Rightarrow> memo \<Rightarrow> bool" where
  "fresh ids m = (distinct ids \<and> (\<forall>a\<in>set ids. Some a \<notin> set m))"

definition saved :: "(exn + opcode list \<times> memo) \<Rightarrow> bool \<Rightarrow> opcode list \<Rightarrow> memo \<Rightarrow> nat list \<Rightarrow> bool" where
  "saved res ok ops m ids =
     (if ok then \<exists>m'. res = Inr (ops, m') \<and> set m' \<subseteq> set m \<union> Some ` set ids
      else res = Inl PicklingError)"



definition renamed :: "(nat \<Rightarrow> nat) \<Rightarrow> (exn + opcode list \<times> memo) \<Rightarrow> (exn + opcode list \<times> memo)" where
  "renamed f res = (case res of Inl e \<Rightarrow> Inl e | Inr (ops, m) \<Rightarrow> Inr (ops, map (map_option f) m))"

section \<open>The filesystem and the paths (\<open>os\<close>, \<open>os.path\<close>, \<open>cp\<close>)\<close>

text \<open>
  A regular file with its content, or a directory with its entries in the order the
  operating system lists them. There are no symbolic links and no permissions.
\<close>

datatype node = File string | Dir "(string \<times> node) list"

fun is_dir :: "node \<Rightarrow> bool" where
  "is_dir (Dir es) = True"
| "is_dir (File c) = False"

text \<open>
  The characters of a name that the shell hands on as they are: letters, digits and a few
  punctuation marks; no blank, no quote, no separator and nothing the shell expands.
\<close>

definition name_char :: "char \<Rightarrow> bool" where
  "name_char c =
     (c \<in> set ''abcdefghijklmnopqrstuvwxyzABCDEFGHIJKLMNOPQRSTUVWXYZ0123456789._-+,:=@%'')"

text \<open>
  The names of the entries in the trees the general statements are about: not empty, not
  \<open>.\<close> or \<open>..\<close>, and made of such characters only. In a well-formed tree
  every entry has such a name and no directory lists a name twice.
\<close>

definition proper :: "string \<Rightarrow> bool" where
  "proper n = (n \<noteq> [] \<and> n \<noteq> ''.'' \<and> n \<noteq> ''..'' \<and> list_all name_char n)"

fun wf_node :: "node \<Rightarrow> bool"
  and wf_entries :: "(string \<times> node) list \<Rightarrow> bool" where
  "wf_node (File c) = True"
| "wf_node (Dir es) = (distinct (map fst es) \<and> wf_entries es)"
| "wf_entries [] = True"
| "wf_entries (e # es) = (proper (fst e) \<and> wf_node (snd e) \<and> wf_entries es)"

text \<open>The node at a path given by its components, from the node \<open>r\<close>.\<close>

fun lookup :: "node \<Rightarrow> string list \<Rightarrow> node option" where
  "lookup r [] = Some r"
| "lookup (File c) (n # ns) = None"
| "lookup (Dir es) (n # ns) = (case map_of es n of None \<Rightarrow> None | Some m \<Rightarrow> lookup m ns)"

subsection \<open>Path strings\<close>

text \<open>\<open>s.split('/')\<close>.\<close>

fun split_sep :: "string \<Rightarrow> string list" where
  "split_sep [] = [[]]"
| "split_sep (c # cs) =
     (if c = CHR ''/'' then [] # split_sep cs
      else (case split_sep cs of [] \<Rightarrow> [[c]] | x # xs \<Rightarrow> (c # x) # xs))"

text \<open>
  The components the operating system walks through when it resolves a path: empty
  components (repeated or trailing separators) and \<open>.\<close> stay where they are. A
  component \<open>..\<close> is not interpreted (it is looked up as a name, which no entry has).
  The paths that reach the operating system here are absolute: they are read from the
  root.
\<close>

definition comps :: "string \<Rightarrow> string list" where
  "comps p = filter (\<lambda>c. c \<noteq> [] \<and> c \<noteq> ''.'') (split_sep p)"

text \<open>A path that ends in a separator or in \<open>.\<close> can only name a directory.\<close>

definition dir_form :: "string \<Rightarrow> bool" where
  "dir_form p = (last (split_sep p) = [] \<or> last (split_sep p) = ''.'')"

text \<open>\<open>os.stat\<close>: the node a path names, if any.\<close>

definition stat :: "string \<Rightarrow> node \<Rightarrow> node option" where
  "stat p r =
     (case lookup r (comps p) of
        None \<Rightarrow> None
      | Some (File c) \<Rightarrow> if dir_form p then None else Some (File c)
      | Some (Dir es) \<Rightarrow> Some (Dir es))"

text \<open>\<open>os.path.exists\<close>, \<open>os.path.isabs\<close>, \<open>os.path.join\<close> (two arguments),
  \<open>os.path.dirname\<close>.\<close>

definition path_exists :: "string \<Rightarrow> node \<Rightarrow> bool" where
  "path_exists p r = (stat p r \<noteq> None)"

definition isabs :: "string \<Rightarrow> bool" where
  "isabs s = (case s of [] \<Rightarrow> False | c # cs \<Rightarrow> c = CHR ''/'')"

definition join :: "string \<Rightarrow> string \<Rightarrow> string" where
  "join a b =
     (if isabs b then b
      else if a = [] \<or> last a = CHR ''/'' then a @ b
      else a @ ''/'' @ b)"

definition rstrip_sep :: "string \<Rightarrow> string" where
  "rstrip_sep s = rev (dropWhile (\<lambda>c. c = CHR ''/'') (rev s))"

definition dirname :: "string \<Rightarrow> string" where
  "dirname p =
     (let head = rev (dropWhile (\<lambda>c. c \<noteq> CHR ''/'') (rev p))
      in if head \<noteq> [] \<and> \<not> list_all (\<lambda>c. c = CHR ''/'') head then rstrip_sep head else head)"

subsection \<open>Operating system calls\<close>

datatype oserror = FileNotFoundError | NotADirectoryError | FileExistsError

text \<open>
  \<open>os.makedirs(path, exist_ok)\<close>: the directory and every missing directory above
  it. A regular file at the path or above it is an error; so is a directory at the path
  unless \<open>exist_ok\<close>.
\<close>

fun mkdirs :: "string list \<Rightarrow> node \<Rightarrow> oserror + node" where
  "mkdirs [] (Dir es) = Inr (Dir es)"
| "mkdirs [] (File c) = Inl FileExistsError"
| "mkdirs (n # ns) (File c) = Inl NotADirectoryError"
| "mkdirs (n # ns) (Dir es) =
     (case mkdirs ns (case map_of es n of None \<Rightarrow> Dir [] | Some m \<Rightarrow> m) of
        Inl e \<Rightarrow> Inl e
      | Inr m' \<Rightarrow> Inr (Dir (AList.update n m' es)))"

definition os_makedirs :: "string \<Rightarrow> bool \<Rightarrow> node \<Rightarrow> oserror + node" where
  "os_makedirs p exist_ok r =
     (case lookup r (comps p) of
        Some (Dir es) \<Rightarrow> if exist_ok then Inr r else Inl FileExistsError
      | Some (File c) \<Rightarrow> Inl FileExistsError
      | None \<Rightarrow> mkdirs (comps p) r)"

text \<open>\<open>os.listdir\<close>.\<close>

definition os_listdir :: "string \<Rightarrow> node \<Rightarrow> oserror + string list" where
  "os_listdir p r =
     (case lookup r (comps p) of
        None \<Rightarrow> Inl FileNotFoundError
      | Some (File c) \<Rightarrow> Inl NotADirectoryError
      | Some (Dir es) \<Rightarrow> Inr (map fst es))"

text \<open>
  \<open>os.walk(top)\<close>, top down: for a directory the triple of its path, the names of
  its subdirectories and the names of its other entries, then the walks of its
  subdirectories in order. A path that cannot be listed yields nothing (\<open>os.walk\<close>
  ignores the error).
\<close>

definition dir_names :: "(string \<times> node) list \<Rightarrow> string list" where
  "dir_names es = map fst (filter (\<lambda>e. is_dir (snd e)) es)"

definition file_names :: "(string \<times> node) list \<Rightarrow> string list" where
  "file_names es = map fst (filter (\<lambda>e. \<not> is_dir (snd e)) es)"

fun os_walk :: "string \<Rightarrow> node \<Rightarrow> (string \<times> string list \<times> string list) list"
  and walk_subdirs :: "string \<Rightarrow> (string \<times> node) list \<Rightarrow> (string \<times> string list \<times> string list) list" where
  "os_walk top_dir (File c) = []"
| "os_walk top_dir (Dir es) = (top_dir, dir_names es, file_names es) # walk_subdirs top_dir es"
| "walk_subdirs top_dir [] = []"
| "walk_subdirs top_dir (e # es) =
     (if is_dir (snd e) then os_walk (join top_dir (fst e)) (snd e) else []) @ walk_subdirs top_dir es"

text \<open>
  \<open>cp -r SOURCE DEST\<close> (GNU): what copying the node \<open>n\<close> onto a target leaves
  there, and whether it went without error. A file replaces a file and is refused on a
  directory; a directory is refused on a file and is copied entry by entry into a
  directory, going on after an entry that fails.
\<close>

fun cp_node :: "node \<Rightarrow> node option \<Rightarrow> bool \<times> node"
  and cp_entries :: "(string \<times> node) list \<Rightarrow> (string \<times> node) list \<Rightarrow> bool \<times> (string \<times> node) list" where
  "cp_node (File c) None = (True, File c)"
| "cp_node (File c) (Some (File c')) = (True, File c)"
| "cp_node (File c) (Some (Dir es)) = (False, Dir es)"
| "cp_node (Dir ss) (Some (File c')) = (False, File c')"
| "cp_node (Dir ss) None = (case cp_entries ss [] of (ok, es') \<Rightarrow> (ok, Dir es'))"
| "cp_node (Dir ss) (Some (Dir es)) = (case cp_entries ss es of (ok, es') \<Rightarrow> (ok, Dir es'))"
| "cp_entries [] es = (True, es)"
| "cp_entries (s # ss) es =
     (case cp_node (snd s) (map_of es (fst s)) of
        (ok1, m) \<Rightarrow>
          (case cp_entries ss (AList.update (fst s) m es) of
             (ok2, es') \<Rightarrow> (ok1 \<and> ok2, es')))"

text \<open>
  Copying the node \<open>n\<close> to the target path \<open>t\<close> below the node \<open>r\<close>: the
  directory that is to hold the target must exist.
\<close>

fun place :: "string list \<Rightarrow> node \<Rightarrow> node \<Rightarrow> bool \<times> node" where
  "place [] n r = cp_node n (Some r)"
| "place (c # cs) n (File x) = (False, File x)"
| "place (c # cs) n (Dir es) =
     (case map_of es c of
        None \<Rightarrow>
          (if cs = [] then (case cp_node n None of (ok, m) \<Rightarrow> (ok, Dir (AList.update c m es)))
           else (False, Dir es))
      | Some child \<Rightarrow>
          (case place cs n child of (ok, m) \<Rightarrow> (ok, Dir (AList.update c m es))))"

text \<open>The name \<open>cp\<close> gives the copy inside an existing directory.\<close>

definition base_name :: "string \<Rightarrow> string" where
  "base_name p = (case comps p of [] \<Rightarrow> [] | c # cs \<Rightarrow> last (c # cs))"

text \<open>Two paths neither of which lies at or below the other.\<close>

definition apart :: "string list \<Rightarrow> string list \<Rightarrow> bool" where
  "apart p q = (\<not> prefix p q \<and> \<not> prefix q p)"

text \<open>
  \<open>cp -r src dst\<close> on the tree \<open>r\<close>: the exit status and the tree it leaves.
  When \<open>dst\<close> is a directory the copy goes inside it, under the source's name;
  otherwise \<open>dst\<close> itself is the target. When source and target do not lie apart,
  two cases are described: a regular file copied onto itself is refused, and a directory
  copied to a new place inside itself is copied as it was when the command started, with
  the error \<open>cannot copy a directory into itself\<close>. Every other such case is left
  open (\<open>None\<close>).
\<close>

definition cp_r :: "string \<Rightarrow> string \<Rightarrow> node \<Rightarrow> (nat \<times> node) option" where
  "cp_r src dst r =
     (case stat src r of
        None \<Rightarrow> Some (1, r)
      | Some n \<Rightarrow>
          (let target =
                 (case lookup r (comps dst) of
                    Some (Dir es) \<Rightarrow> Some (comps dst @ [base_name src])
                  | Some (File c) \<Rightarrow> if dir_form dst then None else Some (comps dst)
                  | None \<Rightarrow> if dir_form dst \<and> \<not> is_dir n then None else Some (comps dst))
           in case target of
                None \<Rightarrow> Some (1, r)
              | Some t \<Rightarrow>
                  if apart (comps src) t
                  then (case place t n r of (ok, r') \<Rightarrow> Some (if ok then 0 else 1, r'))
                  else if t = comps src \<and> \<not> is_dir n then Some (1, r)
                  else if is_dir n \<and> prefix (comps src) t \<and> lookup r t = None
                  then Some (1, snd (place t n r))
                  else None))"

section \<open>The module's functions (\<open>common_util.py\<close>)\<close>

text \<open>
  The state of the process and its machine: the tree of the filesystem, the current
  directory (\<open>None\<close> when it has been removed, so that \<open>os.getcwd\<close> fails), the
  records handed to the logger, and the commands run so far, each with its exit status
  (what \<open>subp.run\<close> returns and the code drops). \<open>shell\<close> is what the machine
  does with a command that is not described here: any exit status and any change of the
  tree.
\<close>

datatype log_record = Debug string | Error string oserror

record world =
  fs :: node
  cwd :: "string option"
  log :: "log_record list"
  procs :: "(string \<times> nat) list"
  shell :: "string \<Rightarrow> node \<Rightarrow> nat \<times> node"

text \<open>\<open>os.getcwd\<close>.\<close>

definition os_getcwd :: "world \<Rightarrow> oserror + string" where
  "os_getcwd w = (case cwd w of None \<Rightarrow> Inl FileNotFoundError | Some d \<Rightarrow> Inr d)"

text \<open>Lines 53-60.\<close>

definition getAbolutePath :: "string \<Rightarrow> world \<Rightarrow> oserror + string" where
  "getAbolutePath filePath w =
     (if isabs filePath then Inr filePath
      else (case os_getcwd w of
              Inl e \<Rightarrow> Inl e
            | Inr d \<Rightarrow> Inr (join d filePath)))"

text \<open>
  Lines 33-51. \<open>Debug p\<close> is the record \<open>Creating directory p\<close>, and
  \<open>Error p e\<close> the record \<open>Error creating directory p\<close> with the exception.
  Line 42 is outside the \<open>try\<close>: an error of \<open>getAbolutePath\<close> is raised.
\<close>

definition createDir :: "string \<Rightarrow> bool \<Rightarrow> world \<Rightarrow> oserror + (string option \<times> world)" where
  "createDir dirPath existOk w =
     (case getAbolutePath dirPath w of
        Inl e \<Rightarrow> Inl e
      | Inr absPath \<Rightarrow>
          (let w1 = w\<lparr>log := log w @ [Debug absPath]\<rparr>
           in case os_makedirs absPath existOk (fs w1) of
                Inl e \<Rightarrow> Inr (None, w1\<lparr>log := log w1 @ [Error absPath e]\<rparr>)
              | Inr r' \<Rightarrow> Inr (Some absPath, w1\<lparr>fs := r'\<rparr>)))"

text \<open>Lines 79-88, on the tree as it is when the enumeration starts.\<close>

definition getAllFilePaths :: "string \<Rightarrow> node \<Rightarrow> string list" where
  "getAllFilePaths directory r =
     (case lookup r (comps directory) of
        None \<Rightarrow> []
      | Some n \<Rightarrow>
          concat (map (\<lambda>(root, dirs, files). map (join root) dirs @ map (join root) files)
            (os_walk directory n)))"

text \<open>Lines 90-92.\<close>

definition isEmptyDir :: "string \<Rightarrow> world \<Rightarrow> oserror + bool" where
  "isEmptyDir directory w =
     (case os_listdir directory (fs w) of
        Inl e \<Rightarrow> Inl e
      | Inr lst \<Rightarrow> Inr (length lst = 0))"

subsection \<open>The copy commands\<close>

text \<open>\<open>s.split(' ')\<close>.\<close>

fun split_blank :: "string \<Rightarrow> string list" where
  "split_blank [] = [[]]"
| "split_blank (c # cs) =
     (if c = CHR '' '' then [] # split_blank cs
      else (case split_blank cs of [] \<Rightarrow> [[c]] | x # xs \<Rightarrow> (c # x) # xs))"

text \<open>
  The words the shell makes of a command line. Only a line of blanks, separators and
  name characters is described: the shell splits it at the blanks and changes nothing
  else. A line with any other character (a quote, \<open>$\<close>, \<open>*\<close>, \<open>;\<close>, a tab
  and so on) is not described (\<open>None\<close>).
\<close>

definition sh_words :: "string \<Rightarrow> string list option" where
  "sh_words cmd =
     (if list_all (\<lambda>c. name_char c \<or> c = CHR ''/'' \<or> c = CHR '' '') cmd
      then Some (filter (\<lambda>x. x \<noteq> []) (split_blank cmd))
      else None)"

text \<open>
  \<open>/bin/sh -c cmd\<close>: the exit status and the tree. A command whose words are
  \<open>cp\<close>, \<open>-r\<close> and two absolute paths is the copy \<open>cp_r\<close>, where that is
  described; everything else is left to \<open>shell\<close>.
\<close>

definition sh_run :: "string \<Rightarrow> world \<Rightarrow> nat \<times> node" where
  "sh_run cmd w =
     (case sh_words cmd of
        None \<Rightarrow> shell w cmd (fs w)
      | Some ws \<Rightarrow>
          if length ws = 4 \<and> ws ! 0 = ''cp'' \<and> ws ! 1 = ''-r'' \<and> isabs (ws ! 2) \<and> isabs (ws ! 3)
          then (case cp_r (ws ! 2) (ws ! 3) (fs w) of
                  None \<Rightarrow> shell w cmd (fs w)
                | Some res \<Rightarrow> res)
          else shell w cmd (fs w))"

text \<open>
  \<open>subp.run(f"cp -r {a} {b}", shell=True)\<close>: the two paths are put into the command
  line as they are, and there is no \<open>check=True\<close>, so a nonzero exit status raises
  nothing.
\<close>

definition run_cp :: "string \<Rightarrow> string \<Rightarrow> world \<Rightarrow> world" where
  "run_cp a b w =
     (let cmd = ''cp -r '' @ a @ '' '' @ b
      in case sh_run cmd w of
           (status, r') \<Rightarrow> w\<lparr>fs := r', procs := procs w @ [(cmd, status)]\<rparr>)"

text \<open>Lines 111-119.\<close>

definition copyDirectoryContents :: "string \<Rightarrow> string \<Rightarrow> world \<Rightarrow> oserror + world" where
  "copyDirectoryContents srcDir destDir w =
     (case os_listdir srcDir (fs w) of
        Inl e \<Rightarrow> Inl e
      | Inr filePathList \<Rightarrow>
          Inr (fold (\<lambda>filePath. run_cp (join srcDir filePath) destDir) filePathList w))"

text \<open>Lines 121-122.\<close>

definition copyFile :: "string \<Rightarrow> string \<Rightarrow> world \<Rightarrow> world" where
  "copyFile filePath destDir w = run_cp filePath destDir w"

subsection \<open>The merge\<close>

text \<open>Lines 151-160, the body of the loop of the selective merge.\<close>

definition merge_step :: "nat \<Rightarrow> string \<Rightarrow> string \<Rightarrow> world \<Rightarrow> oserror + world" where
  "merge_step prefixLen absDestDirPath absSrcFilePath w =
     (let relFilePath = drop prefixLen absSrcFilePath;
          relDirPath = dirname relFilePath;
          absFilePath = join absDestDirPath relFilePath;
          absDirPath = join absDestDirPath relDirPath
      in case (if \<not> path_exists absDirPath (fs w)
               then (case createDir absDestDirPath True w of
                       Inl e \<Rightarrow> Inl e
                     | Inr res \<Rightarrow> Inr (snd res))
               else Inr w) of
           Inl e \<Rightarrow> Inl e
         | Inr w1 \<Rightarrow>
             Inr (if \<not> path_exists absFilePath (fs w1)
                  then copyFile absSrcFilePath absDirPath w1 else w1))"

text \<open>A loop whose body may raise: the first error ends it.\<close>

fun fold_err :: "('a \<Rightarrow> 's \<Rightarrow> 'e + 's) \<Rightarrow> 'a list \<Rightarrow> 's \<Rightarrow> 'e + 's" where
  "fold_err f [] s = Inr s"
| "fold_err f (x # xs) s = (case f x s of Inl e \<Rightarrow> Inl e | Inr s' \<Rightarrow> fold_err f xs s')"

text \<open>
  Lines 124-160. The enumeration of the source is taken when the loop starts: the
  copies are assumed not to change what lies under the source directory.
\<close>

definition prepareDestinationDirectory :: "string \<Rightarrow> string \<Rightarrow> world \<Rightarrow> oserror + world" where
  "prepareDestinationDirectory srcDirPath destDirPath w =
     (case getAbolutePath destDirPath w of
        Inl e \<Rightarrow> Inl e
      | Inr absDestDirPath \<Rightarrow>
          (case getAbolutePath srcDirPath w of
             Inl e \<Rightarrow> Inl e
           | Inr absSrcDirPath \<Rightarrow>
               (case createDir absDestDirPath True w of
                  Inl e \<Rightarrow> Inl e
                | Inr res \<Rightarrow>
                    (let w1 = snd res
                     in case isEmptyDir absDestDirPath w1 of
                          Inl e \<Rightarrow> Inl e
                        | Inr True \<Rightarrow> copyDirectoryContents absSrcDirPath absDestDirPath w1
                        | Inr False \<Rightarrow>
                            fold_err (merge_step (length absSrcDirPath + 1) absDestDirPath)
                              (getAllFilePaths absSrcDirPath (fs w1)) w1))))"

subsection \<open>Trees for the examples\<close>

text \<open>
  The examples start in the current directory \<open>/\<close> with nothing logged and no
  command run; they are stated for every \<open>shell\<close>.
\<close>

definition start :: "node \<Rightarrow> (string \<Rightarrow> node \<Rightarrow> nat \<times> node) \<Rightarrow> world" where
  "start r sh = \<lparr>fs = r, cwd = Some ''/'', log = [], procs = [], shell = sh\<rparr>"

definition t_conflict :: node where
  "t_conflict = Dir [(''s'', Dir [(''a'', Dir [(''f'', File ''X'')])]),
                     (''d'', Dir [(''a'', File ''C'')])]"

definition t_slash :: node where
  "t_slash = Dir [(''s'', Dir [(''sub'', Dir [(''f'', File ''X'')])])]"

definition t_slash_nonempty :: node where
  "t_slash_nonempty = Dir [(''s'', Dir [(''sub'', Dir [(''f'', File ''X'')])]),
                           (''d'', Dir [(''x'', File ''old'')])]"







text \<open>
  What is observed of a state: the tree, the current directory, the log and the commands
  with their status.
\<close>

definition obs :: "world \<Rightarrow> node \<times> string option \<times> log_record list \<times> (string \<times> nat) list" where
  "obs w = (fs w, cwd w, log w, procs w)"

definition outcome ::
  "oserror + world \<Rightarrow> oserror + node \<times> string option \<times> log_record list \<times> (string \<times> nat) list" where
  "outcome res = (case res of Inl e \<Rightarrow> Inl e | Inr w \<Rightarrow> Inr (obs w))"

text \<open>The final tree of a merge that returns.\<close>

definition tree_after :: "oserror + world \<Rightarrow> node option" where
  "tree_after res = (case res of Inl e \<Rightarrow> None | Inr w \<Rightarrow> Some (fs w))"

subsection \<open>Notions for the proofs about the selective merge\<close>









text \<open>
  The state \<open>createDir\<close> leaves for an absolute path, and the loop body for an
  absolute destination path: there \<open>createDir\<close> does not ask for the current
  directory, so that nothing is raised.
\<close>

definition ensure_dir :: "string \<Rightarrow> world \<Rightarrow> world" where
  "ensure_dir absPath w =
     (case os_makedirs absPath True (fs w) of
        Inl e \<Rightarrow> w\<lparr>log := log w @ [Debug absPath, Error absPath e]\<rparr>
      | Inr r' \<Rightarrow> w\<lparr>fs := r', log := log w @ [Debug absPath]\<rparr>)"


section \<open>Properties of the pickled form\<close>

subsection \<open>The stream of a value determines the value\<close>








lemma mark_if_append: "mark_if b @ r = (if b then MARK # r else r)"
  by (simp add: mark_if_def)

lemma tuple_op_neq [simp]:
  "tuple_op n \<noteq> BINUNICODE s" "tuple_op n \<noteq> EMPTY_LIST" "tuple_op n \<noteq> EMPTY_DICT"
  "BINUNICODE s \<noteq> tuple_op n" "EMPTY_LIST \<noteq> tuple_op n" "EMPTY_DICT \<noteq> tuple_op n"
  by (simp_all add: tuple_op_def)

lemma items_op_neq [simp]:
  "items_op n APPEND APPENDS \<noteq> MEMOIZE" "items_op n SETITEM SETITEMS \<noteq> MEMOIZE"
  "items_op n APPEND APPENDS \<noteq> NONE" "items_op n SETITEM SETITEMS \<noteq> NONE"
  "items_op n APPEND APPENDS \<noteq> BININT i" "items_op n SETITEM SETITEMS \<noteq> BININT i"
  "items_op n APPEND APPENDS \<noteq> EMPTY_TUPLE" "items_op n SETITEM SETITEMS \<noteq> EMPTY_TUPLE"
  "items_op n APPEND APPENDS \<noteq> items_op n' SETITEM SETITEMS"
  "items_op n SETITEM SETITEMS \<noteq> items_op n' APPEND APPENDS"
  "MEMOIZE \<noteq> items_op n APPEND APPENDS" "MEMOIZE \<noteq> items_op n SETITEM SETITEMS"
  "NONE \<noteq> items_op n APPEND APPENDS" "NONE \<noteq> items_op n SETITEM SETITEMS"
  "BININT i \<noteq> items_op n APPEND APPENDS" "BININT i \<noteq> items_op n SETITEM SETITEMS"
  "EMPTY_TUPLE \<noteq> items_op n APPEND APPENDS" "EMPTY_TUPLE \<noteq> items_op n SETITEM SETITEMS"
  by (simp_all add: items_op_def)



lemma index_of_None: "index_of x xs = None \<longleftrightarrow> x \<notin> set xs"
  by (induction xs) auto

lemma rev_concat_map_rev: "rev (concat (map f (rev xs))) = concat (map (\<lambda>x. rev (f x)) xs)"
  by (induction xs) simp_all

lemma rev_o_rencode: "rev \<circ> rencode = encode"
  by (simp add: fun_eq_iff encode_def)

lemma rev_o_rencode_items:
  "rev \<circ> (\<lambda>(k, v). rencode v @ rencode k) = (\<lambda>(k, v). encode k @ encode v)"
  by (auto simp: fun_eq_iff encode_def)

lemma close_tuple_None:
  "0 < n \<Longrightarrow> close_tuple n ops None = mark_if (3 < n) @ ops @ [tuple_op n, MEMOIZE]"
  by (auto simp: close_tuple_def tuple_op_def mark_if_def)

lemma encode_tuple:
  "ws \<noteq> [] \<Longrightarrow> encode (VTuple ws) = close_tuple (length ws) (concat (map encode ws)) None"
  by (simp add: encode_def[abs_def] rev_concat_map_rev close_tuple_None mark_if_def)

lemma encode_list:
  "encode (VList ws) = EMPTY_LIST # MEMOIZE # batch (length ws) (concat (map encode ws)) APPEND APPENDS"
  by (cases ws)
    (auto simp: encode_def[abs_def] rev_concat_map_rev batch_def items_op_def mark_if_def)

lemma encode_dict:
  "encode (VDict kws) = EMPTY_DICT # MEMOIZE
     # batch (length kws) (concat (map (\<lambda>(k, v). encode k @ encode v) kws)) SETITEM SETITEMS"
  by (cases kws)
    (auto simp: encode_def[abs_def] rev_concat_map_rev case_prod_unfold batch_def items_op_def mark_if_def)

lemma encode_simps:
  "encode VNone = [NONE]" "encode (VInt i) = [BININT i]" "encode (VStr s) = [BINUNICODE s, MEMOIZE]"
  "encode (VTuple []) = [EMPTY_TUPLE]"
  by (simp_all add: encode_def)

lemma fresh_Cons: "fresh (a # ids) m \<longleftrightarrow> a \<notin> set ids \<and> Some a \<notin> set m \<and> fresh ids m"
  by (auto simp: fresh_def)

lemma fresh_append:
  "fresh (xs @ ys) m \<longleftrightarrow> fresh xs m \<and> fresh ys m \<and> set xs \<inter> set ys = {}"
  by (auto simp: fresh_def)

lemma fresh_mono:
  "fresh ys m \<Longrightarrow> set m' \<subseteq> set m \<union> Some ` set xs \<Longrightarrow> set xs \<inter> set ys = {} \<Longrightarrow> fresh ys m'"
  by (auto simp: fresh_def)

lemma save_unshared_all:
  "(fresh (ids_of v) m \<longrightarrow>
      saved (save v m) (lambda_free (erase v)) (encode (erase v)) m (ids_of v))"
  "(fresh (concat (map ids_of vs)) m \<longrightarrow>
      saved (save_all vs m) (list_all (\<lambda>v. lambda_free (erase v)) vs)
        (concat (map (\<lambda>v. encode (erase v)) vs)) m (concat (map ids_of vs)))"
  "(fresh (concat (map (\<lambda>(k, v). ids_of k @ ids_of v) kvs)) m \<longrightarrow>
      saved (save_items kvs m) (list_all (\<lambda>(k, v). lambda_free (erase k) \<and> lambda_free (erase v)) kvs)
        (concat (map (\<lambda>(k, v). encode (erase k) @ encode (erase v)) kvs)) m
        (concat (map (\<lambda>(k, v). ids_of k @ ids_of v) kvs)))"
proof (induction v m and vs m and kvs m rule: save_save_all_save_items.induct)
  case (1 m)
  show ?case by (simp add: saved_def encode_simps)
next
  case (2 i m)
  show ?case by (simp add: saved_def encode_simps)
next
  case (3 a s m)
  show ?case by (auto simp: saved_def encode_simps fresh_def index_of_None[THEN iffD2])
next
  case (4 a m)
  show ?case by (simp add: saved_def)
next
  case (5 a vs m)
  show ?case
  proof
    assume fr: "fresh (ids_of (PyTuple a vs)) m"
    then have a: "a \<notin> set (concat (map ids_of vs))" "Some a \<notin> set m"
      and fr': "fresh (concat (map ids_of vs)) m" by (simp_all add: fresh_Cons)
    have idx: "index_of (Some a) m = None" using a(2) by (simp add: index_of_None)
    show "saved (save (PyTuple a vs) m) (lambda_free (erase (PyTuple a vs)))
            (encode (erase (PyTuple a vs))) m (ids_of (PyTuple a vs))"
    proof (cases "vs = []")
      case True
      then show ?thesis using idx by (auto simp: saved_def encode_simps)
    next
      case False
      from 5[OF idx False] fr'
      have IH: "saved (save_all vs m) (list_all (\<lambda>v. lambda_free (erase v)) vs)
        (concat (map (\<lambda>v. encode (erase v)) vs)) m (concat (map ids_of vs))" by simp
      show ?thesis
      proof (cases "list_all (\<lambda>v. lambda_free (erase v)) vs")
        case True
        with IH obtain m' where s: "save_all vs m = Inr (concat (map (\<lambda>v. encode (erase v)) vs), m')"
          and sub: "set m' \<subseteq> set m \<union> Some ` set (concat (map ids_of vs))"
          by (auto simp: saved_def)
        from sub a have "Some a \<notin> set m'" by auto
        then have idx': "index_of (Some a) m' = None" by (simp add: index_of_None)
        have lf: "lambda_free (erase (PyTuple a vs))" using True by (simp add: list_all_iff)
        have enc: "encode (erase (PyTuple a vs))
            = close_tuple (length vs) (concat (map (\<lambda>v. encode (erase v)) vs)) None"
          using False by (simp add: encode_tuple comp_def)
        have "save (PyTuple a vs) m = Inr (encode (erase (PyTuple a vs)), m' @ [Some a])"
          using idx False s idx' enc by simp
        moreover have "set (m' @ [Some a]) \<subseteq> set m \<union> Some ` set (ids_of (PyTuple a vs))"
          using sub by auto
        ultimately show ?thesis using lf unfolding saved_def by (simp del: save.simps erase.simps ids_of.simps)
      next
        case F: False
        with IH have s: "save_all vs m = Inl PicklingError" by (simp add: saved_def)
        have lf: "\<not> lambda_free (erase (PyTuple a vs))" using F by (simp add: list_all_iff)
        have "save (PyTuple a vs) m = Inl PicklingError" using idx False s by simp
        then show ?thesis using lf unfolding saved_def by (simp del: save.simps erase.simps ids_of.simps)
      qed
    qed
  qed
next
  case (6 a vs m)
  show ?case
  proof
    assume fr: "fresh (ids_of (PyList a vs)) m"
    then have a: "a \<notin> set (concat (map ids_of vs))" "Some a \<notin> set m"
      and fr0: "fresh (concat (map ids_of vs)) m" by (simp_all add: fresh_Cons)
    have idx: "index_of (Some a) m = None" using a(2) by (simp add: index_of_None)
    have fr': "fresh (concat (map ids_of vs)) (m @ [Some a])"
      using fr0 a(1) by (auto simp: fresh_def)
    from 6[OF idx] fr'
    have IH: "saved (save_all vs (m @ [Some a])) (list_all (\<lambda>v. lambda_free (erase v)) vs)
        (concat (map (\<lambda>v. encode (erase v)) vs)) (m @ [Some a]) (concat (map ids_of vs))" by simp
    show "saved (save (PyList a vs) m) (lambda_free (erase (PyList a vs)))
            (encode (erase (PyList a vs))) m (ids_of (PyList a vs))"
    proof (cases "list_all (\<lambda>v. lambda_free (erase v)) vs")
      case True
      with IH obtain m' where s: "save_all vs (m @ [Some a]) = Inr (concat (map (\<lambda>v. encode (erase v)) vs), m')"
        and sub: "set m' \<subseteq> set (m @ [Some a]) \<union> Some ` set (concat (map ids_of vs))"
        by (auto simp: saved_def)
      have lf: "lambda_free (erase (PyList a vs))" using True by (simp add: list_all_iff)
      have "save (PyList a vs) m = Inr (encode (erase (PyList a vs)), m')"
        using idx s by (simp add: encode_list comp_def)
      moreover have "set m' \<subseteq> set m \<union> Some ` set (ids_of (PyList a vs))"
        using sub by auto
      ultimately show ?thesis using lf unfolding saved_def by (simp del: save.simps erase.simps ids_of.simps)
    next
      case F: False
      with IH have s: "save_all vs (m @ [Some a]) = Inl PicklingError" by (simp add: saved_def)
      have lf: "\<not> lambda_free (erase (PyList a vs))" using F by (simp add: list_all_iff)
      have "save (PyList a vs) m = Inl PicklingError" using idx s by simp
      then show ?thesis using lf unfolding saved_def by (simp del: save.simps erase.simps ids_of.simps)
    qed
  qed
next
  case (7 a kvs m)
  let ?ids = "concat (map (\<lambda>(k, v). ids_of k @ ids_of v) kvs)"
  let ?ok = "list_all (\<lambda>(k, v). lambda_free (erase k) \<and> lambda_free (erase v)) kvs"
  let ?ops = "concat (map (\<lambda>(k, v). encode (erase k) @ encode (erase v)) kvs)"
  show ?case
  proof
    assume fr: "fresh (ids_of (PyDict a kvs)) m"
    then have a: "a \<notin> set ?ids" "Some a \<notin> set m"
      and fr0: "fresh ?ids m" by (simp_all add: fresh_Cons)
    have idx: "index_of (Some a) m = None" using a(2) by (simp add: index_of_None)
    have fr': "fresh ?ids (m @ [Some a])"
      using fr0 a(1) by (auto simp: fresh_def)
    from 7[OF idx] fr'
    have IH: "saved (save_items kvs (m @ [Some a])) ?ok ?ops (m @ [Some a]) ?ids" by simp
    have lfeq: "lambda_free (erase (PyDict a kvs)) = ?ok"
      by (simp add: list_all_iff case_prod_unfold)
    have enc: "encode (erase (PyDict a kvs))
       = EMPTY_DICT # MEMOIZE # batch (length kvs) ?ops SETITEM SETITEMS"
      by (simp add: encode_dict comp_def case_prod_unfold)
    show "saved (save (PyDict a kvs) m) (lambda_free (erase (PyDict a kvs)))
            (encode (erase (PyDict a kvs))) m (ids_of (PyDict a kvs))"
    proof (cases ?ok)
      case True
      with IH obtain m' where s: "save_items kvs (m @ [Some a]) = Inr (?ops, m')"
        and sub: "set m' \<subseteq> set (m @ [Some a]) \<union> Some ` set ?ids"
        by (auto simp: saved_def)
      have "save (PyDict a kvs) m = Inr (encode (erase (PyDict a kvs)), m')"
        using idx s enc by simp
      moreover have "set m' \<subseteq> set m \<union> Some ` set (ids_of (PyDict a kvs))"
        using sub by auto
      ultimately show ?thesis using True lfeq unfolding saved_def by (simp del: save.simps erase.simps ids_of.simps)
    next
      case F: False
      with IH have s: "save_items kvs (m @ [Some a]) = Inl PicklingError" by (simp add: saved_def)
      have "save (PyDict a kvs) m = Inl PicklingError" using idx s by simp
      then show ?thesis using F lfeq unfolding saved_def by (simp del: save.simps erase.simps ids_of.simps)
    qed
  qed
next
  case (8 m)
  show ?case by (simp add: saved_def)
next
  case (9 v vs m)
  show ?case
  proof
    assume fr: "fresh (concat (map ids_of (v # vs))) m"
    then have f1: "fresh (ids_of v) m" and f2: "fresh (concat (map ids_of vs)) m"
      and dj: "set (ids_of v) \<inter> set (concat (map ids_of vs)) = {}"
      by (simp_all add: fresh_append)
    from 9(1) f1 have IH1: "saved (save v m) (lambda_free (erase v)) (encode (erase v)) m (ids_of v)"
      by simp
    show "saved (save_all (v # vs) m) (list_all (\<lambda>v. lambda_free (erase v)) (v # vs))
        (concat (map (\<lambda>v. encode (erase v)) (v # vs))) m (concat (map ids_of (v # vs)))"
    proof (cases "lambda_free (erase v)")
      case False
      with IH1 have "save v m = Inl PicklingError" by (simp add: saved_def)
      then show ?thesis using False by (simp add: saved_def)
    next
      case True
      with IH1 obtain m' where s: "save v m = Inr (encode (erase v), m')"
        and sub: "set m' \<subseteq> set m \<union> Some ` set (ids_of v)" by (auto simp: saved_def)
      have f2': "fresh (concat (map ids_of vs)) m'"
        by (rule fresh_mono[OF f2 sub dj])
      from 9(2)[OF s refl] f2'
      have IH2: "saved (save_all vs m') (list_all (\<lambda>v. lambda_free (erase v)) vs)
        (concat (map (\<lambda>v. encode (erase v)) vs)) m' (concat (map ids_of vs))" by simp
      show ?thesis
      proof (cases "list_all (\<lambda>v. lambda_free (erase v)) vs")
        case F: False
        with IH2 have "save_all vs m' = Inl PicklingError" by (simp add: saved_def)
        then show ?thesis using s F by (simp add: saved_def)
      next
        case T: True
        with IH2 obtain m'' where s2: "save_all vs m' = Inr (concat (map (\<lambda>v. encode (erase v)) vs), m'')"
          and sub2: "set m'' \<subseteq> set m' \<union> Some ` set (concat (map ids_of vs))"
          by (auto simp: saved_def)
        have "set m'' \<subseteq> set m \<union> Some ` set (concat (map ids_of (v # vs)))"
          using sub sub2 by auto
        then show ?thesis using s s2 T True by (simp add: saved_def)
      qed
    qed
  qed
next
  case (10 m)
  show ?case by (simp add: saved_def)
next
  case (11 k v kvs m)
  let ?I = "\<lambda>kvs. concat (map (\<lambda>(k, v). ids_of k @ ids_of v) kvs)"
  let ?ok = "\<lambda>kvs. list_all (\<lambda>(k, v). lambda_free (erase k) \<and> lambda_free (erase v)) kvs"
  let ?ops = "\<lambda>kvs. concat (map (\<lambda>(k, v). encode (erase k) @ encode (erase v)) kvs)"
  show ?case
  proof
    assume fr: "fresh (?I ((k, v) # kvs)) m"
    then have f1: "fresh (ids_of k) m" and f2: "fresh (ids_of v) m" and f3: "fresh (?I kvs) m"
      and dj: "set (ids_of k) \<inter> set (ids_of v) = {}" "set (ids_of k) \<inter> set (?I kvs) = {}"
        "set (ids_of v) \<inter> set (?I kvs) = {}"
      by (auto simp: fresh_append)
    from 11(1) f1 have IH1: "saved (save k m) (lambda_free (erase k)) (encode (erase k)) m (ids_of k)"
      by simp
    show "saved (save_items ((k, v) # kvs) m) (?ok ((k, v) # kvs)) (?ops ((k, v) # kvs)) m
            (?I ((k, v) # kvs))"
    proof (cases "lambda_free (erase k)")
      case False
      with IH1 have "save k m = Inl PicklingError" by (simp add: saved_def)
      then show ?thesis using False by (simp add: saved_def)
    next
      case Tk: True
      with IH1 obtain m1 where s1: "save k m = Inr (encode (erase k), m1)"
        and sub1: "set m1 \<subseteq> set m \<union> Some ` set (ids_of k)" by (auto simp: saved_def)
      have f2': "fresh (ids_of v) m1" by (rule fresh_mono[OF f2 sub1 dj(1)])
      have f3': "fresh (?I kvs) m1" by (rule fresh_mono[OF f3 sub1 dj(2)])
      from 11(2)[OF s1 refl] f2'
      have IH2: "saved (save v m1) (lambda_free (erase v)) (encode (erase v)) m1 (ids_of v)" by simp
      show ?thesis
      proof (cases "lambda_free (erase v)")
        case False
        with IH2 have "save v m1 = Inl PicklingError" by (simp add: saved_def)
        then show ?thesis using s1 False by (simp add: saved_def)
      next
        case Tv: True
        with IH2 obtain m2 where s2: "save v m1 = Inr (encode (erase v), m2)"
          and sub2: "set m2 \<subseteq> set m1 \<union> Some ` set (ids_of v)" by (auto simp: saved_def)
        have f3'': "fresh (?I kvs) m2" by (rule fresh_mono[OF f3' sub2 dj(3)])
        from 11(3)[OF s1 refl s2 refl] f3''
        have IH3: "saved (save_items kvs m2) (?ok kvs) (?ops kvs) m2 (?I kvs)" by simp
        show ?thesis
        proof (cases "?ok kvs")
          case False
          with IH3 have "save_items kvs m2 = Inl PicklingError" by (simp add: saved_def)
          then show ?thesis using s1 s2 False by (simp add: saved_def)
        next
          case True
          with IH3 obtain m3 where s3: "save_items kvs m2 = Inr (?ops kvs, m3)"
            and sub3: "set m3 \<subseteq> set m2 \<union> Some ` set (?I kvs)" by (auto simp: saved_def)
          have I: "set (?I ((k, v) # kvs)) = set (ids_of k) \<union> set (ids_of v) \<union> set (?I kvs)"
            by (simp add: Un_assoc)
          have "set m3 \<subseteq> set m \<union> Some ` set (?I ((k, v) # kvs))"
            unfolding I using sub1 sub2 sub3 by blast
          then show ?thesis using s1 s2 s3 True Tk Tv by (simp add: saved_def)
        qed
      qed
    qed
  qed
qed



lemma renamed_simps [simp]:
  "renamed f (Inl e) = Inl e"
  "renamed f (Inr (ops, m)) = Inr (ops, map (map_option f) m)"
  by (simp_all add: renamed_def)




subsection \<open>The key of a call without shared objects\<close>

lemma dumps_args_plain:
  assumes "unshared args"
  shows "dumps_args args =
     (if lambda_free (args_val args) then Inr (encode (args_val args)) else Inl PicklingError)"
proof (cases "args = []")
  case True
  then show ?thesis by (simp add: dumps_args_def args_val_def encode_simps)
next
  case False
  from assms have fr: "fresh (concat (map ids_of args)) []"
    by (simp add: unshared_def fresh_def)
  with save_unshared_all(2)[of args "[]"]
  have sv: "saved (save_all args []) (list_all (\<lambda>v. lambda_free (erase v)) args)
        (concat (map (\<lambda>v. encode (erase v)) args)) [] (concat (map ids_of args))" by simp
  have lf: "lambda_free (args_val args) = list_all (\<lambda>v. lambda_free (erase v)) args"
    by (simp add: args_val_def list_all_iff)
  have enc: "encode (args_val args)
      = close_tuple (length args) (concat (map (\<lambda>v. encode (erase v)) args)) None"
    using False by (simp add: args_val_def encode_tuple comp_def)
  show ?thesis
  proof (cases "lambda_free (args_val args)")
    case True
    with sv lf obtain m' where "save_all args [] = Inr (concat (map (\<lambda>v. encode (erase v)) args), m')"
      by (auto simp: saved_def)
    then show ?thesis using False True enc by (simp add: dumps_args_def)
  next
    case F: False
    with sv lf have "save_all args [] = Inl PicklingError" by (simp add: saved_def)
    then show ?thesis using False F by (simp add: dumps_args_def)
  qed
qed

lemma kwargs_items_ids:
  "concat (map (\<lambda>(k, v). ids_of k @ ids_of v) (kwargs_items kw))
     = concat (map (\<lambda>((a, k), v). a # ids_of v) kw)"
  by (induction kw) (auto simp: kwargs_items_def)

lemma kwargs_items_ok:
  "list_all (\<lambda>(k, v). lambda_free (erase k) \<and> lambda_free (erase v)) (kwargs_items kw)
     = lambda_free (kwargs_val kw)"
  by (induction kw) (auto simp: kwargs_items_def kwargs_val_def)

lemma kwargs_items_ops:
  "concat (map (\<lambda>(k, v). encode (erase k) @ encode (erase v)) (kwargs_items kw))
     = concat (map (\<lambda>(k, v). encode k @ encode v) (map (\<lambda>((a, k), v). (VStr k, erase v)) kw))"
  by (induction kw) (auto simp: kwargs_items_def)

lemma dumps_kwargs_plain:
  assumes "unshared_kw kw"
  shows "dumps_kwargs kw =
     (if lambda_free (kwargs_val kw) then Inr (encode (kwargs_val kw)) else Inl PicklingError)"
proof -
  from assms have fr: "fresh (concat (map (\<lambda>(k, v). ids_of k @ ids_of v) (kwargs_items kw))) [None]"
    by (simp add: unshared_kw_def fresh_def kwargs_items_ids)
  with save_unshared_all(3)[of "kwargs_items kw" "[None]"]
  have sv: "saved (save_items (kwargs_items kw) [None]) (lambda_free (kwargs_val kw))
        (concat (map (\<lambda>(k, v). encode k @ encode v) (map (\<lambda>((a, k), v). (VStr k, erase v)) kw)))
        [None] (concat (map (\<lambda>(k, v). ids_of k @ ids_of v) (kwargs_items kw)))"
    by (simp only: kwargs_items_ok kwargs_items_ops)
  have enc: "encode (kwargs_val kw) = EMPTY_DICT # MEMOIZE
     # batch (length kw) (concat (map (\<lambda>(k, v). encode k @ encode v)
          (map (\<lambda>((a, k), v). (VStr k, erase v)) kw))) SETITEM SETITEMS"
    by (simp add: kwargs_val_def encode_dict)
  show ?thesis
  proof (cases "lambda_free (kwargs_val kw)")
    case True
    with sv obtain m' where "save_items (kwargs_items kw) [None]
        = Inr (concat (map (\<lambda>(k, v). encode k @ encode v) (map (\<lambda>((a, k), v). (VStr k, erase v)) kw)), m')"
      by (auto simp: saved_def)
    then show ?thesis using True enc by (simp add: dumps_kwargs_def)
  next
    case False
    with sv have "save_items (kwargs_items kw) [None] = Inl PicklingError" by (simp add: saved_def)
    then show ?thesis using False by (simp add: dumps_kwargs_def)
  qed
qed

lemma make_key_plain:
  assumes "plain_call (args, kw)"
  shows "make_key args kw =
     (if lambda_free (args_val args) \<and> lambda_free (kwargs_val kw)
      then Inr (encode (args_val args), encode (kwargs_val kw)) else Inl PicklingError)"
  using assms
  by (simp add: make_key_def plain_call_def dumps_args_plain dumps_kwargs_plain)



subsection \<open>The cache only grows, and only by the keys of the calls made\<close>










section \<open>Properties of the memoizing wrapper\<close>


subsection \<open>Claims about the wrapper\<close>


lemmas memo_eval = wrapper_def make_key_def dumps_args_def dumps_kwargs_def kwargs_items_def
  close_tuple_def batch_def counted_def first_arg_def



lemma save_error:
  "save v m = Inl e \<longrightarrow> e = PicklingError"
  "save_all vs m = Inl e \<longrightarrow> e = PicklingError"
  "save_items kvs m = Inl e \<longrightarrow> e = PicklingError"
proof (induction v m and vs m and kvs m rule: save_save_all_save_items.induct)
  case (5 a vs m)
  then show ?case by (auto split: option.splits sum.splits if_splits)
next
  case (6 a vs m)
  then show ?case by (auto split: option.splits sum.splits)
next
  case (7 a kvs m)
  then show ?case by (auto split: option.splits sum.splits)
next
  case (9 v vs m)
  then show ?case by (auto split: sum.splits)
next
  case (11 k v kvs m)
  then show ?case by (auto split: sum.splits)
qed (auto split: option.splits)

lemma save_all_lambda: "PyLambda a \<in> set vs \<Longrightarrow> save_all vs m = Inl PicklingError"
proof (induction vs arbitrary: m)
  case Nil
  then show ?case by simp
next
  case (Cons v vs)
  show ?case
  proof (cases "save v m")
    case (Inl e)
    with save_error(1)[of v m e] show ?thesis by simp
  next
    case (Inr r)
    obtain ops m' where r: "r = (ops, m')" by (cases r)
    from Inr have "v \<noteq> PyLambda a" by auto
    with Cons.prems have "PyLambda a \<in> set vs" by simp
    from Cons.IH[OF this, of m'] Inr r show ?thesis by simp
  qed
qed

lemma save_items_lambda: "PyLambda a \<in> snd ` set kvs \<Longrightarrow> save_items kvs m = Inl PicklingError"
proof (induction kvs arbitrary: m)
  case Nil
  then show ?case by simp
next
  case (Cons kv kvs)
  obtain k v where kv: "kv = (k, v)" by (cases kv)
  show ?case
  proof (cases "save k m")
    case (Inl e)
    with save_error(1)[of k m e] kv show ?thesis by simp
  next
    case (Inr r)
    obtain ops m1 where r: "r = (ops, m1)" by (cases r)
    show ?thesis
    proof (cases "save v m1")
      case (Inl e)
      with save_error(1)[of v m1 e] kv Inr r show ?thesis by simp
    next
      case Inr2: (Inr r2)
      obtain ops2 m2 where r2: "r2 = (ops2, m2)" by (cases r2)
      from Inr2 have "v \<noteq> PyLambda a" by auto
      with Cons.prems kv have "PyLambda a \<in> snd ` set kvs" by auto
      from Cons.IH[OF this, of m2] Inr r Inr2 r2 kv show ?thesis by simp
    qed
  qed
qed

lemma make_key_error: "make_key args kw = Inl e \<Longrightarrow> e = PicklingError"
  using save_error(2)[of args "[]" e] save_error(3)[of "kwargs_items kw" "[None]" e]
  by (auto simp: make_key_def dumps_args_def dumps_kwargs_def split: sum.splits if_splits)

lemma make_key_lambda:
  assumes "PyLambda a \<in> set args \<union> snd ` set kw"
  shows "make_key args kw = Inl PicklingError"
proof (cases "PyLambda a \<in> set args")
  case True
  then have "args \<noteq> []" by auto
  with save_all_lambda[OF True, of "[]"] show ?thesis
    by (simp add: make_key_def dumps_args_def)
next
  case False
  with assms have "PyLambda a \<in> snd ` set kw" by simp
  then have "PyLambda a \<in> snd ` set (kwargs_items kw)"
    by (force simp: kwargs_items_def)
  from save_items_lambda[OF this, of "[None]"]
  have "dumps_kwargs kw = Inl PicklingError" by (simp add: dumps_kwargs_def)
  then show ?thesis
    using make_key_error[of args kw] by (auto simp: make_key_def split: sum.splits)
qed

text \<open>
  C10 (error atomicity). When the key cannot be built, the error is
  \<open>PicklingError\<close>, the wrapper raises it, the callable is not invoked (its counter
  and its state are as before) and the cache is as before. That is so whenever an
  argument is a lambda, and, for a call that passes no object in two places, whenever a
  lambda lies anywhere inside an argument.
\<close>

theorem memoize_unpicklable:
  "(make_key args kw = Inl e \<longrightarrow>
      e = PicklingError
      \<and> wrapper (counted f) args kw (c, (n, s)) = (Inl PicklingError, (c, (n, s))))
   \<and> (PyLambda a \<in> set args \<union> snd ` set kw \<longrightarrow>
      wrapper (counted f) args kw (c, (n, s)) = (Inl PicklingError, (c, (n, s))))
   \<and> (plain_call (args, kw) \<and> (\<exists>v \<in> set args \<union> snd ` set kw. \<not> lambda_free (erase v)) \<longrightarrow>
      wrapper (counted f) args kw (c, (n, s)) = (Inl PicklingError, (c, (n, s))))"
proof (intro conjI impI)
  assume k: "make_key args kw = Inl e"
  then show "e = PicklingError" by (rule make_key_error)
  with k show "wrapper (counted f) args kw (c, (n, s)) = (Inl PicklingError, (c, (n, s)))"
    by (simp add: wrapper_def)
next
  assume "PyLambda a \<in> set args \<union> snd ` set kw"
  then have "make_key args kw = Inl PicklingError" by (rule make_key_lambda)
  then show "wrapper (counted f) args kw (c, (n, s)) = (Inl PicklingError, (c, (n, s)))"
    by (simp add: wrapper_def)
next
  assume a: "plain_call (args, kw) \<and> (\<exists>v \<in> set args \<union> snd ` set kw. \<not> lambda_free (erase v))"
  then have "\<not> (lambda_free (args_val args) \<and> lambda_free (kwargs_val kw))"
    by (auto simp: args_val_def kwargs_val_def list_all_iff)
  with a have "make_key args kw = Inl PicklingError"
    by (simp add: make_key_plain)
  then show "wrapper (counted f) args kw (c, (n, s)) = (Inl PicklingError, (c, (n, s)))"
    by (simp add: wrapper_def)
qed

theorem memoize_unpicklable_witness:
  "wrapper (counted first_arg) [PyInt 1, PyLambda 0] [] (Map.empty, (0, ()))
     = (Inl PicklingError, (Map.empty, (0, ())))
   \<and> wrapper (counted first_arg) [PyList 1 [PyLambda 0]] [((2, ''key''), PyInt 1)] (Map.empty, (0, ()))
     = (Inl PicklingError, (Map.empty, (0, ())))"
proof
  have k: "make_key [PyInt 1, PyLambda 0] [] = Inl PicklingError"
    by (simp add: memo_eval)
  have l: "PyLambda 0 \<in> set [PyInt 1, PyLambda 0] \<union> snd ` set ([] :: kwargs)" by simp
  from memoize_unpicklable[of "[PyInt 1, PyLambda 0]" "[]" PicklingError first_arg Map.empty 0 "()" 0] k l
  show "wrapper (counted first_arg) [PyInt 1, PyLambda 0] [] (Map.empty, (0, ()))
     = (Inl PicklingError, (Map.empty, (0, ())))" by blast
  have p: "plain_call ([PyList 1 [PyLambda 0]], [((2, ''key''), PyInt 1)]) \<and>
      (\<exists>v \<in> set [PyList 1 [PyLambda 0]] \<union> snd ` set [((2 :: nat, ''key''), PyInt 1)].
          \<not> lambda_free (erase v))"
    by (simp add: plain_call_def unshared_def unshared_kw_def)
  from memoize_unpicklable[of "[PyList 1 [PyLambda 0]]" "[((2, ''key''), PyInt 1)]" PicklingError
      first_arg Map.empty 0 "()" 0] p
  show "wrapper (counted first_arg) [PyList 1 [PyLambda 0]] [((2, ''key''), PyInt 1)] (Map.empty, (0, ()))
     = (Inl PicklingError, (Map.empty, (0, ())))" by blast
qed




section \<open>Paths and trees\<close>

subsection \<open>Names and paths the shell hands on\<close>

lemma name_char_not_sep [simp]: "\<not> name_char (CHR ''/'')"
  by (simp add: name_char_def)

lemma name_char_not_blank [simp]: "\<not> name_char (CHR '' '')"
  by (simp add: name_char_def)

lemma name_chars_no_sep [simp]: "list_all name_char n \<Longrightarrow> CHR ''/'' \<notin> set n"
  by (auto simp: list_all_iff)

subsection \<open>Path strings and their components\<close>

















subsection \<open>Looking up, creating and copying in the tree\<close>

lemma map_of_update_same: "map_of (AList.update k v al) k = Some v"
  by (simp add: update_conv')

lemma map_of_update_other: "k' \<noteq> k \<Longrightarrow> map_of (AList.update k v al) k' = map_of al k'"
  by (simp add: update_conv')






lemma wf_entries_iff: "wf_entries es \<longleftrightarrow> (\<forall>e \<in> set es. proper (fst e) \<and> wf_node (snd e))"
  by (induction es) auto

lemma wf_map_of: "wf_node (Dir es) \<Longrightarrow> map_of es n = Some m \<Longrightarrow> proper n \<and> wf_node m"
  by (auto simp: wf_entries_iff dest!: map_of_SomeD)

lemma wf_lookup: "wf_node r \<Longrightarrow> lookup r p = Some m \<Longrightarrow> wf_node m"
proof (induction r p rule: lookup.induct)
  case (3 es n ns)
  from "3.prems"(2) obtain child where c: "map_of es n = Some child" and l: "lookup child ns = Some m"
    by (auto split: option.splits)
  from wf_map_of[OF "3.prems"(1) c] have "wf_node child" by simp
  from "3.IH"[OF c this l] show ?case .
qed simp_all




lemma mkdirs_frame:
  "mkdirs p r = Inr r' \<Longrightarrow> \<not> prefix q p \<Longrightarrow> lookup r' q = lookup r q"
proof (induction p r arbitrary: r' q rule: mkdirs.induct)
  case (4 n ns es)
  let ?child = "case map_of es n of None \<Rightarrow> Dir [] | Some m \<Rightarrow> m"
  from "4.prems"(1) obtain m' where m: "mkdirs ns ?child = Inr m'" and r': "r' = Dir (AList.update n m' es)"
    by (auto split: sum.splits)
  from "4.prems"(2) obtain c q' where q: "q = c # q'" by (cases q) auto
  show ?case
  proof (cases "c = n")
    case True
    with "4.prems"(2) q have np: "\<not> prefix q' ns" by simp
    then have ne: "q' \<noteq> []" by auto
    from "4.IH"[OF m np] have "lookup m' q' = lookup ?child q'" .
    moreover have "lookup ?child q' = (case map_of es n of None \<Rightarrow> None | Some m \<Rightarrow> lookup m q')"
      using ne by (cases q') (auto split: option.splits)
    ultimately show ?thesis using True q r' by (simp add: map_of_update_same)
  next
    case False
    with q r' show ?thesis by (simp add: map_of_update_other)
  qed
qed auto

lemma os_makedirs_frame:
  "os_makedirs p ok r = Inr r' \<Longrightarrow> \<not> prefix q (comps p) \<Longrightarrow> lookup r' q = lookup r q"
  by (auto simp: os_makedirs_def split: option.splits node.splits if_splits dest: mkdirs_frame)

lemma fs_ensure_dir:
  "fs (ensure_dir p w) = (case os_makedirs p True (fs w) of Inl e \<Rightarrow> fs w | Inr r' \<Rightarrow> r')"
  by (simp add: ensure_dir_def split: sum.splits)

lemma ensure_dir_frame:
  "\<not> prefix q (comps p) \<Longrightarrow> lookup (fs (ensure_dir p w)) q = lookup (fs w) q"
  by (auto simp: fs_ensure_dir split: sum.splits dest: os_makedirs_frame)

lemma ensure_dir_fields [simp]:
  "cwd (ensure_dir p w) = cwd w" "procs (ensure_dir p w) = procs w" "shell (ensure_dir p w) = shell w"
  by (simp_all add: ensure_dir_def split: sum.splits)








subsection \<open>The command line of a copy\<close>









subsection \<open>One copy command into an existing directory\<close>






lemma listdir_empty_iff: "os_listdir p r = Inr [] \<longleftrightarrow> lookup r (comps p) = Some (Dir [])"
  by (auto simp: os_listdir_def split: option.splits node.splits)

lemma isEmptyDir_True_iff: "isEmptyDir p w = Inr True \<longleftrightarrow> lookup (fs w) (comps p) = Some (Dir [])"
  by (auto simp: isEmptyDir_def os_listdir_def split: option.splits node.splits sum.splits)


subsection \<open>Relative paths as strings\<close>





















subsection \<open>Replacing a node; one pass of the loop body\<close>

















subsection \<open>The merged directory\<close>












subsection \<open>The loop of the selective merge\<close>






lemma isEmptyDir_dir:
  "lookup (fs w) (comps p) = Some (Dir ds) \<Longrightarrow> isEmptyDir p w = Inr (ds = [])"
  by (simp add: isEmptyDir_def os_listdir_def)

section \<open>Properties of the filesystem functions\<close>

subsection \<open>Creating directories\<close>



lemma createDir_getcwd_error:
  "getAbolutePath dirPath w = Inl e \<Longrightarrow> createDir dirPath existOk w = Inl e"
  by (simp add: createDir_def)



subsection \<open>The shell stays what it is\<close>

lemma run_cp_shell: "shell (run_cp a b w) = shell w"
  by (simp add: run_cp_def Let_def split: prod.splits)

lemma fold_run_cp_shell: "shell (fold (\<lambda>x. run_cp (g x) b) xs w) = shell w"
  by (induction xs arbitrary: w) (simp_all add: run_cp_shell)

lemma createDir_shell: "createDir p ok w = Inr res \<Longrightarrow> shell (snd res) = shell w"
  by (auto simp: createDir_def Let_def split: sum.splits)

lemma merge_step_shell: "merge_step pl D x w = Inr w' \<Longrightarrow> shell w' = shell w"
  by (auto simp: merge_step_def Let_def copyFile_def run_cp_shell
      split: sum.splits if_splits dest: createDir_shell)

lemma fold_err_shell: "fold_err (merge_step pl D) xs w = Inr w' \<Longrightarrow> shell w' = shell w"
proof (induction xs arbitrary: w)
  case Nil
  then show ?case by simp
next
  case (Cons x xs)
  then obtain w1 where s: "merge_step pl D x w = Inr w1" and r: "fold_err (merge_step pl D) xs w1 = Inr w'"
    by (auto split: sum.splits)
  from Cons.IH[OF r] merge_step_shell[OF s] show ?case by simp
qed

lemma prepare_shell:
  "prepareDestinationDirectory srcDirPath destDirPath w = Inr w' \<Longrightarrow> shell w' = shell w"
  by (auto simp: prepareDestinationDirectory_def Let_def copyDirectoryContents_def fold_run_cp_shell
      split: sum.splits bool.splits dest!: createDir_shell fold_err_shell)

lemma outcome_world:
  assumes "outcome res = Inr (a, b, c, d)" and "\<And>w'. res = Inr w' \<Longrightarrow> shell w' = sh"
  shows "res = Inr \<lparr>fs = a, cwd = b, log = c, procs = d, shell = sh\<rparr>"
proof (cases res)
  case (Inl e)
  with assms(1) show ?thesis by (simp add: outcome_def)
next
  case (Inr w')
  with assms(1) have "fs w' = a" "cwd w' = b" "log w' = c" "procs w' = d"
    by (simp_all add: outcome_def obs_def)
  moreover from assms(2)[OF Inr] have "shell w' = sh" .
  ultimately have "w' = \<lparr>fs = a, cwd = b, log = c, procs = d, shell = sh\<rparr>" by simp
  with Inr show ?thesis by simp
qed

subsection \<open>The merge on particular trees\<close>

text \<open>
  C1 (non-overwrite) at a failing input. The destination \<open>/d\<close> holds the regular
  file \<open>a\<close> with content \<open>C\<close>; the source \<open>/s\<close> holds the directory
  \<open>a\<close> with the file \<open>f\<close> of content \<open>X\<close>. For the entry \<open>/s/a/f\<close>
  the path \<open>/d/a/f\<close> does not exist, so line 160 runs \<open>cp -r /s/a/f /d/a\<close>,
  which replaces the content of the file \<open>/d/a\<close>.
\<close>

theorem merge_overwrites_file:
  "stat ''/d/a'' t_conflict = Some (File ''C'')
   \<and> prepareDestinationDirectory ''/s'' ''/d'' (start t_conflict sh) =
       Inr \<lparr>fs = Dir [(''s'', Dir [(''a'', Dir [(''f'', File ''X'')])]),
                      (''d'', Dir [(''a'', File ''X'')])],
            cwd = Some ''/'', log = [Debug ''/d''], procs = [(''cp -r /s/a/f /d/a'', 0)],
            shell = sh\<rparr>"
proof
  show "stat ''/d/a'' t_conflict = Some (File ''C'')" by code_simp
  have "outcome (prepareDestinationDirectory ''/s'' ''/d'' (start t_conflict sh)) =
       Inr (Dir [(''s'', Dir [(''a'', Dir [(''f'', File ''X'')])]),
                 (''d'', Dir [(''a'', File ''X'')])],
            Some ''/'', [Debug ''/d''], [(''cp -r /s/a/f /d/a'', 0)])"
    by code_simp
  then show "prepareDestinationDirectory ''/s'' ''/d'' (start t_conflict sh) =
       Inr \<lparr>fs = Dir [(''s'', Dir [(''a'', Dir [(''f'', File ''X'')])]),
                      (''d'', Dir [(''a'', File ''X'')])],
            cwd = Some ''/'', log = [Debug ''/d''], procs = [(''cp -r /s/a/f /d/a'', 0)],
            shell = sh\<rparr>"
    by (rule outcome_world) (simp add: prepare_shell start_def)
qed

text \<open>
  C3 (creating the missing directory) at a failing input. The source is given as
  \<open>/s/\<close>, so line 151 cuts one character too many: for \<open>/s/sub/f\<close> the
  directory path under the destination is \<open>/d/ub\<close>, which does not exist. Line 157
  calls \<open>createDir\<close> on the destination root \<open>/d\<close> (the second debug record),
  \<open>/d/ub\<close> is not created as a directory, and line 160 then writes the regular file
  \<open>/d/ub\<close>.
\<close>

theorem merge_step_skips_directory:
  "prepareDestinationDirectory ''/s/'' ''/d'' (start t_slash_nonempty sh) =
     Inr \<lparr>fs = Dir [(''s'', Dir [(''sub'', Dir [(''f'', File ''X'')])]),
                    (''d'', Dir [(''x'', File ''old''), (''sub'', Dir [(''f'', File ''X'')]),
                                 (''ub'', File ''X'')])],
          cwd = Some ''/'', log = [Debug ''/d'', Debug ''/d''],
          procs = [(''cp -r /s/sub /d/'', 0), (''cp -r /s/sub/f /d/ub'', 0)], shell = sh\<rparr>
   \<and> \<not> path_exists ''/d/ub''
         (Dir [(''s'', Dir [(''sub'', Dir [(''f'', File ''X'')])]),
               (''d'', Dir [(''x'', File ''old''), (''sub'', Dir [(''f'', File ''X'')])])])
   \<and> merge_step 4 ''/d'' ''/s/sub/f''
       \<lparr>fs = Dir [(''s'', Dir [(''sub'', Dir [(''f'', File ''X'')])]),
                  (''d'', Dir [(''x'', File ''old''), (''sub'', Dir [(''f'', File ''X'')])])],
        cwd = Some ''/'', log = [Debug ''/d''], procs = [(''cp -r /s/sub /d/'', 0)],
        shell = sh\<rparr> =
       Inr \<lparr>fs = Dir [(''s'', Dir [(''sub'', Dir [(''f'', File ''X'')])]),
                      (''d'', Dir [(''x'', File ''old''), (''sub'', Dir [(''f'', File ''X'')]),
                                   (''ub'', File ''X'')])],
            cwd = Some ''/'', log = [Debug ''/d'', Debug ''/d''],
            procs = [(''cp -r /s/sub /d/'', 0), (''cp -r /s/sub/f /d/ub'', 0)], shell = sh\<rparr>"
proof (intro conjI)
  have "outcome (prepareDestinationDirectory ''/s/'' ''/d'' (start t_slash_nonempty sh)) =
     Inr (Dir [(''s'', Dir [(''sub'', Dir [(''f'', File ''X'')])]),
               (''d'', Dir [(''x'', File ''old''), (''sub'', Dir [(''f'', File ''X'')]),
                            (''ub'', File ''X'')])],
          Some ''/'', [Debug ''/d'', Debug ''/d''],
          [(''cp -r /s/sub /d/'', 0), (''cp -r /s/sub/f /d/ub'', 0)])"
    by code_simp
  then show "prepareDestinationDirectory ''/s/'' ''/d'' (start t_slash_nonempty sh) =
     Inr \<lparr>fs = Dir [(''s'', Dir [(''sub'', Dir [(''f'', File ''X'')])]),
                    (''d'', Dir [(''x'', File ''old''), (''sub'', Dir [(''f'', File ''X'')]),
                                 (''ub'', File ''X'')])],
          cwd = Some ''/'', log = [Debug ''/d'', Debug ''/d''],
          procs = [(''cp -r /s/sub /d/'', 0), (''cp -r /s/sub/f /d/ub'', 0)], shell = sh\<rparr>"
    by (rule outcome_world) (simp add: prepare_shell start_def)
  show "\<not> path_exists ''/d/ub''
         (Dir [(''s'', Dir [(''sub'', Dir [(''f'', File ''X'')])]),
               (''d'', Dir [(''x'', File ''old''), (''sub'', Dir [(''f'', File ''X'')])])])"
    by code_simp
  let ?v = "\<lparr>fs = Dir [(''s'', Dir [(''sub'', Dir [(''f'', File ''X'')])]),
                  (''d'', Dir [(''x'', File ''old''), (''sub'', Dir [(''f'', File ''X'')])])],
        cwd = Some ''/'', log = [Debug ''/d''], procs = [(''cp -r /s/sub /d/'', 0)],
        shell = sh\<rparr>"
  have "outcome (merge_step 4 ''/d'' ''/s/sub/f'' ?v) =
       Inr (Dir [(''s'', Dir [(''sub'', Dir [(''f'', File ''X'')])]),
                 (''d'', Dir [(''x'', File ''old''), (''sub'', Dir [(''f'', File ''X'')]),
                              (''ub'', File ''X'')])],
            Some ''/'', [Debug ''/d'', Debug ''/d''],
            [(''cp -r /s/sub /d/'', 0), (''cp -r /s/sub/f /d/ub'', 0)])"
    by code_simp
  then show "merge_step 4 ''/d'' ''/s/sub/f'' ?v =
       Inr \<lparr>fs = Dir [(''s'', Dir [(''sub'', Dir [(''f'', File ''X'')])]),
                      (''d'', Dir [(''x'', File ''old''), (''sub'', Dir [(''f'', File ''X'')]),
                                   (''ub'', File ''X'')])],
            cwd = Some ''/'', log = [Debug ''/d'', Debug ''/d''],
            procs = [(''cp -r /s/sub /d/'', 0), (''cp -r /s/sub/f /d/ub'', 0)], shell = sh\<rparr>"
    by (rule outcome_world) (simp add: merge_step_shell)
qed

text \<open>
  C6 (idempotence) at a failing input. With the source given as \<open>/s/\<close> and no
  destination yet, the first merge copies in bulk; the second finds the destination not
  empty, enumerates, and adds the file \<open>/d/ub\<close>.
\<close>

theorem merge_twice_differs:
  "tree_after (prepareDestinationDirectory ''/s/'' ''/d'' (start t_slash sh)) =
     Some (Dir [(''s'', Dir [(''sub'', Dir [(''f'', File ''X'')])]),
                (''d'', Dir [(''sub'', Dir [(''f'', File ''X'')])])])
   \<and> tree_after (case prepareDestinationDirectory ''/s/'' ''/d'' (start t_slash sh) of
         Inl e \<Rightarrow> Inl e
       | Inr w \<Rightarrow> prepareDestinationDirectory ''/s/'' ''/d'' w) =
     Some (Dir [(''s'', Dir [(''sub'', Dir [(''f'', File ''X'')])]),
                (''d'', Dir [(''sub'', Dir [(''f'', File ''X'')]), (''ub'', File ''X'')])])"
  by code_simp

subsection \<open>The merge in terms of its steps\<close>



lemma run_cp_fields [simp]:
  "cwd (run_cp a b w) = cwd w" "log (run_cp a b w) = log w" "shell (run_cp a b w) = shell w"
  by (simp_all add: run_cp_def Let_def split: prod.splits)



subsection \<open>Failures of the copy command\<close>




subsection \<open>The bulk copy\<close>




subsection \<open>Completeness of the merge\<close>




end
